theory Spec2Isabelle
  imports Main
begin

section \<open>A shallow embedding of the TCP chat server (src/main.cpp)\<close>

text \<open>
  The server is the class \<open>ChatServer\<close> instantiated at \<open>SocketT = int\<close> and
  \<open>Container = std::list<Client<int>>\<close>.  Its member functions become functions on a
  record of the four data members, extended by a trace of the system calls and
  diagnostic prints that the member functions issue.  Everything the operating system
  decides (what \<open>accept\<close>, \<open>recv\<close> and \<open>send\<close> return) is an explicit argument, the
  record \<open>env\<close>.  Descriptors are modelled as unbounded integers: the code compares and
  stores them, the only arithmetic on them is \<open>max_fd + 1\<close>.
\<close>

subsection \<open>Constants and text\<close>

definition BUFFER_SIZE :: nat where
  "BUFFER_SIZE = 1024"

definition HOSTNAME :: string where
  "HOSTNAME = ''127.0.0.1''"

definition PORT :: nat where
  "PORT = 3000"

definition CR :: char where
  "CR = CHR 0x0D"

definition LF :: char where
  "LF = CHR 0x0A"

definition crlf :: string where
  "crlf = [CR, LF]"

text \<open>The string literals of the source hold emoji; a \<open>string\<close> is a list of bytes, so
  each emoji is written as its UTF-8 encoding, as the compiled literal holds it.\<close>

definition emoji_rocket :: string where
  "emoji_rocket = [CHR 0xF0, CHR 0x9F, CHR 0x9A, CHR 0x80]"

definition emoji_party :: string where
  "emoji_party = [CHR 0xF0, CHR 0x9F, CHR 0x8E, CHR 0x89]"

definition emoji_people :: string where
  "emoji_people = [CHR 0xF0, CHR 0x9F, CHR 0x91, CHR 0xA5]"

definition emoji_cross :: string where
  "emoji_cross = [CHR 0xE2, CHR 0x9D, CHR 0x8C]"

definition emoji_person :: string where
  "emoji_person = [CHR 0xF0, CHR 0x9F, CHR 0x91, CHR 0xA4]"

definition emoji_wave :: string where
  "emoji_wave = [CHR 0xF0, CHR 0x9F, CHR 0x91, CHR 0x8B]"

definition emoji_check :: string where
  "emoji_check = [CHR 0xE2, CHR 0x9C, CHR 0x85]"

definition emoji_speech :: string where
  "emoji_speech = [CHR 0xF0, CHR 0x9F, CHR 0x92, CHR 0xAC]"

definition emoji_loud :: string where
  "emoji_loud = [CHR 0xF0, CHR 0x9F, CHR 0x93, CHR 0xA2]"

text \<open>\<open>std::format("{}", n)\<close> for an unsigned and for a signed integer: decimal digits.\<close>

definition digit_char :: "nat \<Rightarrow> char" where
  "digit_char d = ''0123456789'' ! d"

function fmt_nat :: "nat \<Rightarrow> string" where
  "fmt_nat n = (if n < 10 then [digit_char n] else fmt_nat (n div 10) @ [digit_char (n mod 10)])"
  by pat_completeness auto
termination
  by (relation "measure id") auto

declare fmt_nat.simps [simp del]

definition fmt_int :: "int \<Rightarrow> string" where
  "fmt_int i = (if i < 0 then ''-'' @ fmt_nat (nat (- i)) else fmt_nat (nat i))"

subsection \<open>The operating system as seen by the server\<close>

datatype errno = EPIPE | ECONNRESET | EINTR | EOTHER string

fun strerror :: "errno \<Rightarrow> string" where
  "strerror EPIPE = ''Broken pipe''"
| "strerror ECONNRESET = ''Connection reset by peer''"
| "strerror EINTR = ''Interrupted system call''"
| "strerror (EOTHER text) = text"

text \<open>\<open>send\<close> either succeeds or returns a negative value and sets \<open>errno\<close>.\<close>

datatype send_result = SendOk | SendFail errno

text \<open>What a readable socket holds when \<open>recv\<close> is called: an error, or the bytes queued
  by the peer; no bytes on a readable socket is the peer's orderly shutdown.\<close>

datatype rx = RxError | RxData string

record env =
  accept_result :: int
  accept_errno :: errno
  accept_peer :: string
  recv_input :: rx
  recv_errno :: errno
  send_outcome :: "int \<Rightarrow> send_result"

text \<open>The effects of the server, in the order in which they are issued.\<close>

datatype event =
    Send int string
  | Shutdown int
  | Close int
  | Stdout string
  | Stderr string

subsection \<open>Data members\<close>

record client =
  socket :: int
  nickname :: string

record server =
  clients :: "client list"
  server_socket :: int
  master_set :: "int set"
  max_fd :: int
  trace :: "event list"

definition emit :: "event list \<Rightarrow> server \<Rightarrow> server" where
  "emit evs s = s\<lparr>trace := trace s @ evs\<rparr>"

subsection \<open>\<open>setup_server\<close>\<close>

record setup_env =
  socket_result :: int
  setsockopt_result :: int
  bind_result :: int
  listen_result :: int
  setup_errno :: errno

definition setup_server :: "setup_env \<Rightarrow> string + server" where
  "setup_server se =
     (if socket_result se < 0 then Inl (''socket failed: '' @ strerror (setup_errno se))
      else if setsockopt_result se < 0 then Inl (''setsockopt failed: '' @ strerror (setup_errno se))
      else if bind_result se < 0 then Inl (''bind failed: '' @ strerror (setup_errno se))
      else if listen_result se < 0 then Inl (''listen failed: '' @ strerror (setup_errno se))
      else Inr \<lparr>clients = [],
                server_socket = socket_result se,
                master_set = {socket_result se},
                max_fd = socket_result se,
                trace = [Stdout (emoji_rocket @ '' Server running on '' @ HOSTNAME @ '':''
                                 @ fmt_nat PORT @ [LF])]\<rparr>)"

subsection \<open>\<open>broadcast\<close>\<close>

text \<open>The loop body: one \<open>send\<close> per client of the filtered view, and a line on
  \<open>stderr\<close> when it fails with anything but \<open>EPIPE\<close>.  Nothing else happens on failure.\<close>

definition send_failure_log :: "string \<Rightarrow> send_result \<Rightarrow> event list" where
  "send_failure_log what r =
     (case r of
        SendOk \<Rightarrow> []
      | SendFail e \<Rightarrow> if e \<noteq> EPIPE then [Stderr (what @ strerror e @ [LF])] else [])"

fun broadcast_loop :: "env \<Rightarrow> client list \<Rightarrow> string \<Rightarrow> event list" where
  "broadcast_loop ev [] message = []"
| "broadcast_loop ev (c # cs) message =
     Send (socket c) message
       # send_failure_log ''broadcast send failed: '' (send_outcome ev (socket c))
       @ broadcast_loop ev cs message"

definition broadcast :: "env \<Rightarrow> server \<Rightarrow> int \<Rightarrow> string \<Rightarrow> server" where
  "broadcast ev s sender_fd message =
     emit (broadcast_loop ev (filter (\<lambda>c. socket c \<noteq> sender_fd) (clients s)) message) s"

subsection \<open>\<open>find_client\<close> and \<open>nickname_exists\<close>\<close>

definition find_client :: "server \<Rightarrow> int \<Rightarrow> client option" where
  "find_client s sock = List.find (\<lambda>c. socket c = sock) (clients s)"

definition nickname_exists :: "server \<Rightarrow> string \<Rightarrow> bool" where
  "nickname_exists s nick = list_ex (\<lambda>c. nickname c = nick) (clients s)"

subsection \<open>\<open>send_welcome\<close>\<close>

text \<open>The folding function of \<open>std::ranges::fold_left\<close>.\<close>

definition join_step :: "string \<Rightarrow> string \<Rightarrow> string" where
  "join_step acc nick = (if acc = [] then nick else acc @ '', '' @ nick)"

definition welcome_alone :: string where
  "welcome_alone = emoji_party @ '' Welcome! You are the only user here.'' @ crlf"

definition welcome_online :: "nat \<Rightarrow> string \<Rightarrow> string" where
  "welcome_online count online_users =
     emoji_party @ '' Welcome! '' @ fmt_nat count @ '' users online.'' @ crlf
       @ emoji_people @ '' Users: '' @ online_users @ crlf"

definition welcome_message :: "client list \<Rightarrow> int \<Rightarrow> string" where
  "welcome_message cs sock =
     (let online_users =
            foldl join_step []
              (map nickname (filter (\<lambda>c. socket c \<noteq> sock \<and> nickname c \<noteq> []) cs));
          count = length (filter (\<lambda>c. socket c \<noteq> sock \<and> nickname c \<noteq> []) cs)
      in if count = 0 then welcome_alone else welcome_online count online_users)"

definition send_welcome :: "env \<Rightarrow> server \<Rightarrow> int \<Rightarrow> server" where
  "send_welcome ev s sock =
     emit (Send sock (welcome_message (clients s) sock)
             # send_failure_log ''send welcome failed: '' (send_outcome ev sock)) s"

subsection \<open>\<open>register_client\<close>\<close>

definition nickname_taken :: string where
  "nickname_taken = emoji_cross @ '' Nickname taken, choose another:'' @ crlf @ ''> ''"

definition join_msg :: "string \<Rightarrow> string" where
  "join_msg nick = emoji_wave @ '' '' @ nick @ '' joined the chat'' @ crlf"

definition register_client :: "env \<Rightarrow> server \<Rightarrow> int \<Rightarrow> string \<Rightarrow> server" where
  "register_client ev s sock nick =
     (if nickname_exists s nick then emit [Send sock nickname_taken] s
      else
        let s1 = s\<lparr>clients := clients s @ [\<lparr>socket = sock, nickname = nick\<rparr>]\<rparr>;
            s2 = emit [Stdout (emoji_person @ '' Registered: '' @ nick @ [LF])] s1;
            s3 = send_welcome ev s2 sock
        in broadcast ev s3 sock (join_msg nick))"

subsection \<open>\<open>remove_client\<close>\<close>

definition display_name :: "client \<Rightarrow> string" where
  "display_name c = (if nickname c = [] then ''unknown'' else nickname c)"

definition leave_msg :: "client \<Rightarrow> string" where
  "leave_msg c = emoji_wave @ '' '' @ display_name c @ '' left the chat'' @ crlf"

text \<open>The rescan of \<open>max_fd\<close>: it starts from the listening socket and walks \<open>clients\<close>.\<close>

definition rescan_max_fd :: "int \<Rightarrow> client list \<Rightarrow> int" where
  "rescan_max_fd srv cs = foldl (\<lambda>m c. if socket c > m then socket c else m) srv cs"

definition remove_client :: "env \<Rightarrow> server \<Rightarrow> int \<Rightarrow> server" where
  "remove_client ev s sock =
     (case find_client s sock of
        None \<Rightarrow> s
      | Some cl \<Rightarrow>
          let s1 = emit [Stdout (emoji_cross @ '' '' @ display_name cl @ '' disconnected'' @ [LF])] s;
              s2 = broadcast ev s1 sock (leave_msg cl);
              s3 = emit [Shutdown sock, Close sock] s2;
              s4 = s3\<lparr>master_set := master_set s3 - {sock}\<rparr>;
              s5 = s4\<lparr>clients := filter (\<lambda>c. \<not> (socket c = sock)) (clients s4)\<rparr>
          in if sock = max_fd s5
             then s5\<lparr>max_fd := rescan_max_fd (server_socket s5) (clients s5)\<rparr>
             else s5)"

subsection \<open>\<open>handle_new_connection\<close>\<close>

definition nickname_prompt :: string where
  "nickname_prompt = emoji_wave @ '' Enter nickname:'' @ crlf @ ''> ''"

definition handle_new_connection :: "env \<Rightarrow> server \<Rightarrow> server" where
  "handle_new_connection ev s =
     (let new_socket = accept_result ev in
      if new_socket < 0
      then emit [Stderr (''accept failed: '' @ strerror (accept_errno ev) @ [LF])] s
      else
        let s1 = s\<lparr>master_set := insert new_socket (master_set s)\<rparr>;
            s2 = (if new_socket > max_fd s1 then s1\<lparr>max_fd := new_socket\<rparr> else s1);
            s3 = emit [Stdout (emoji_check @ '' Connected: '' @ accept_peer ev @ [LF]),
                       Send new_socket nickname_prompt] s2
        in case send_outcome ev new_socket of
             SendOk \<Rightarrow> s3
           | SendFail e \<Rightarrow>
               (emit [Stderr (''send prompt failed: '' @ strerror e @ [LF]), Close new_socket] s3)
                 \<lparr>master_set := master_set s3 - {new_socket}\<rparr>)"

subsection \<open>\<open>handle_client_data\<close>\<close>

text \<open>\<open>recv(socket, buf, n, 0)\<close> on a readable stream socket: it fails with \<open>-1\<close>, or copies
  the first \<open>n\<close> queued bytes (fewer when fewer are queued) to the front of the buffer and
  returns how many.  \<open>unread\<close> is what stays queued in the socket for the next call.\<close>

fun recv :: "rx \<Rightarrow> string \<Rightarrow> nat \<Rightarrow> int \<times> string" where
  "recv RxError buf n = (- 1, buf)"
| "recv (RxData d) buf n = (int (length (take n d)), take n d @ drop (length (take n d)) buf)"

fun unread :: "rx \<Rightarrow> nat \<Rightarrow> string" where
  "unread RxError n = []"
| "unread (RxData d) n = drop n d"

text \<open>\<open>std::string_view::find_first_of\<close> and \<open>substr\<close>; \<open>substr\<close> throws when the
  position is beyond the size.\<close>

fun find_first_of :: "string \<Rightarrow> string \<Rightarrow> nat option" where
  "find_first_of [] chars = None"
| "find_first_of (c # cs) chars =
     (if c \<in> set chars then Some 0 else map_option Suc (find_first_of cs chars))"

definition substr :: "string \<Rightarrow> nat \<Rightarrow> nat \<Rightarrow> string option" where
  "substr sv pos n = (if pos > length sv then None else Some (take n (drop pos sv)))"

text \<open>Lines 244 to 247: the view is cut at the first \<open>\r\<close> or \<open>\n\<close>, when there is one.\<close>

definition trim_message :: "string \<Rightarrow> string option" where
  "trim_message message =
     (case find_first_of message crlf of
        Some end_pos \<Rightarrow> substr message 0 end_pos
      | None \<Rightarrow> Some message)"

definition chat_msg :: "string \<Rightarrow> string \<Rightarrow> string" where
  "chat_msg nick message = emoji_speech @ '' '' @ nick @ '': '' @ message @ crlf"

definition chat_log :: "string \<Rightarrow> string \<Rightarrow> string" where
  "chat_log nick message = emoji_loud @ '' '' @ nick @ '': '' @ message @ [LF]"

text \<open>What can go wrong in the handler beyond the errors it handles itself: the write
  \<open>buffer[bytes] = '\0'\<close> past the end of the vector, and \<open>substr\<close> throwing.\<close>

datatype fault = BufferOverrun | OutOfRange

definition recv_failure_log :: "errno \<Rightarrow> int \<Rightarrow> event" where
  "recv_failure_log e sock =
     (if e = ECONNRESET \<or> e = EPIPE
      then Stdout (''Connection reset by peer (socket '' @ fmt_int sock @ '')'' @ [LF])
      else Stderr (''recv error: '' @ strerror e @ [LF]))"

text \<open>Lines 249 to 259: an empty line is dropped, any other line is a nickname claim
  when the connection has no entry in \<open>clients\<close> and a chat line otherwise.\<close>

definition process_message :: "env \<Rightarrow> server \<Rightarrow> int \<Rightarrow> string \<Rightarrow> server" where
  "process_message ev s sock message =
     (if message = [] then s
      else
        (case find_client s sock of
           None \<Rightarrow> register_client ev s sock message
         | Some cl \<Rightarrow>
             broadcast ev (emit [Stdout (chat_log (nickname cl) message)] s) sock
               (chat_msg (nickname cl) message)))"

definition handle_client_data :: "env \<Rightarrow> server \<Rightarrow> int \<Rightarrow> fault + server" where
  "handle_client_data ev s sock =
     (let buffer0 = replicate BUFFER_SIZE (CHR 0x00);
          (bytes, buffer1) = recv (recv_input ev) buffer0 (length buffer0 - 1)
      in if bytes < 0
         then Inr (remove_client ev (emit [recv_failure_log (recv_errno ev) sock] s) sock)
         else if bytes = 0
         then Inr (remove_client ev
                     (emit [Stdout (''Client '' @ fmt_int sock @ '' closed connection'' @ [LF])] s)
                     sock)
         else if \<not> nat bytes < length buffer1 then Inl BufferOverrun
         else
           let buffer2 = buffer1[nat bytes := CHR 0x00] in
           case trim_message (take (nat bytes) buffer2) of
             None \<Rightarrow> Inl OutOfRange
           | Some message \<Rightarrow> Inr (process_message ev s sock message))"

subsection \<open>\<open>run\<close>\<close>

definition dispatch :: "env \<Rightarrow> server \<Rightarrow> int \<Rightarrow> fault + server" where
  "dispatch ev s fd =
     (if fd = server_socket s then Inr (handle_new_connection ev s)
      else handle_client_data ev s fd)"

text \<open>\<open>select\<close> fails, or leaves in \<open>read_fds\<close> the watched descriptors that are ready.\<close>

datatype select_result = SelectFail errno | SelectReady "int set"

fun run_fds :: "(int \<Rightarrow> env) \<Rightarrow> int set \<Rightarrow> int list \<Rightarrow> server \<Rightarrow> fault + server" where
  "run_fds evs read_fds [] s = Inr s"
| "run_fds evs read_fds (fd # fds) s =
     (if fd \<in> read_fds
      then (case dispatch (evs fd) s fd of
              Inl f \<Rightarrow> Inl f
            | Inr s' \<Rightarrow> run_fds evs read_fds fds s')
      else run_fds evs read_fds fds s)"

text \<open>One turn of the \<open>while (true)\<close> loop.  The range \<open>iota(0, max_fd + 1)\<close> and
  \<open>read_fds\<close> are fixed before the first handler runs.\<close>

definition run_iteration :: "select_result \<Rightarrow> (int \<Rightarrow> env) \<Rightarrow> server \<Rightarrow> fault + server" where
  "run_iteration sel evs s =
     (case sel of
        SelectFail e \<Rightarrow>
          Inr (if e = EINTR then s else emit [Stderr (''select error: '' @ strerror e @ [LF])] s)
      | SelectReady ready \<Rightarrow> run_fds evs (master_set s \<inter> ready) [0..max_fd s] s)"

text \<open>The loop itself never returns; \<open>run\<close> is the state after the given finite number
  of turns.\<close>

fun run :: "(select_result \<times> (int \<Rightarrow> env)) list \<Rightarrow> server \<Rightarrow> fault + server" where
  "run [] s = Inr s"
| "run ((sel, evs) # turns) s =
     (case run_iteration sel evs s of
        Inl f \<Rightarrow> Inl f
      | Inr s' \<Rightarrow> run turns s')"

subsection \<open>Reachable states\<close>

text \<open>The states of the event loop: those after \<open>setup_server\<close> and any number of
  handler calls, whatever the operating system returns.\<close>

inductive reachable :: "server \<Rightarrow> bool" where
  start: "setup_server se = Inr s \<Longrightarrow> reachable s"
| step: "reachable s \<Longrightarrow> dispatch ev s fd = Inr s' \<Longrightarrow> reachable s'"

text \<open>The states after any sequence of the registry operations, called with any
  arguments, and of handler calls.\<close>

inductive reachable_ops :: "server \<Rightarrow> bool" where
  ops_start: "setup_server se = Inr s \<Longrightarrow> reachable_ops s"
| ops_register: "reachable_ops s \<Longrightarrow> reachable_ops (register_client ev s sock nick)"
| ops_broadcast: "reachable_ops s \<Longrightarrow> reachable_ops (broadcast ev s sender_fd message)"
| ops_remove: "reachable_ops s \<Longrightarrow> reachable_ops (remove_client ev s sock)"
| ops_step: "reachable_ops s \<Longrightarrow> dispatch ev s fd = Inr s' \<Longrightarrow> reachable_ops s'"

section \<open>Observations, invariants and scenarios\<close>

subsection \<open>Reading a trace\<close>

text \<open>The \<open>send\<close> calls of a trace, in order, and the descriptors it shuts down or
  closes.\<close>

fun sends :: "event list \<Rightarrow> (int \<times> string) list" where
  "sends [] = []"
| "sends (Send fd m # es) = (fd, m) # sends es"
| "sends (Shutdown fd # es) = sends es"
| "sends (Close fd # es) = sends es"
| "sends (Stdout t # es) = sends es"
| "sends (Stderr t # es) = sends es"

fun closes :: "event list \<Rightarrow> int list" where
  "closes [] = []"
| "closes (Shutdown fd # es) = fd # closes es"
| "closes (Close fd # es) = fd # closes es"
| "closes (Send fd m # es) = closes es"
| "closes (Stdout t # es) = closes es"
| "closes (Stderr t # es) = closes es"

subsection \<open>The words of the specification\<close>

text \<open>Nicknames joined by a comma and a space.\<close>

fun comma_join :: "string list \<Rightarrow> string" where
  "comma_join [] = []"
| "comma_join [n] = n"
| "comma_join (n # m # ns) = n @ '', '' @ comma_join (m # ns)"

text \<open>The named clients other than the one on \<open>sock\<close>, in registry order.\<close>

definition named_others :: "server \<Rightarrow> int \<Rightarrow> client list" where
  "named_others s sock = filter (\<lambda>c. socket c \<noteq> sock \<and> nickname c \<noteq> []) (clients s)"

text \<open>The number that a string of decimal digits denotes.\<close>

definition digit_value :: "char \<Rightarrow> nat" where
  "digit_value c = of_char c - 48"

definition decimal_value :: "string \<Rightarrow> nat" where
  "decimal_value ds = foldl (\<lambda>v c. 10 * v + digit_value c) 0 ds"

definition is_terminator :: "char \<Rightarrow> bool" where
  "is_terminator c \<longleftrightarrow> c = CR \<or> c = LF"

definition unique_nicknames :: "server \<Rightarrow> bool" where
  "unique_nicknames s \<longleftrightarrow> distinct (map nickname (clients s))"

definition named_clients :: "server \<Rightarrow> bool" where
  "named_clients s \<longleftrightarrow> list_all (\<lambda>c. nickname c \<noteq> []) (clients s)"

subsection \<open>Concrete runs\<close>

text \<open>A server listening on descriptor 3, and three operating systems: one that hands
  out a given descriptor on \<open>accept\<close>, one whose socket holds given bytes, and one where
  every \<open>send\<close> fails.\<close>

definition setup_ok :: setup_env where
  "setup_ok = \<lparr>socket_result = 3, setsockopt_result = 0, bind_result = 0, listen_result = 0,
               setup_errno = EINTR\<rparr>"

definition server0 :: server where
  "server0 = \<lparr>clients = [], server_socket = 3, master_set = {3}, max_fd = 3,
               trace = [Stdout (emoji_rocket @ '' Server running on '' @ HOSTNAME @ '':''
                                @ fmt_nat PORT @ [LF])]\<rparr>"

definition env_accept :: "int \<Rightarrow> env" where
  "env_accept fd = \<lparr>accept_result = fd, accept_errno = EINTR, accept_peer = ''127.0.0.1'',
                     recv_input = RxError, recv_errno = ECONNRESET,
                     send_outcome = (\<lambda>fd. SendOk)\<rparr>"

definition env_data :: "string \<Rightarrow> env" where
  "env_data d = \<lparr>accept_result = - 1, accept_errno = EINTR, accept_peer = [],
                  recv_input = RxData d, recv_errno = ECONNRESET,
                  send_outcome = (\<lambda>fd. SendOk)\<rparr>"

definition env_failing :: env where
  "env_failing = \<lparr>accept_result = - 1, accept_errno = EINTR, accept_peer = [],
                   recv_input = RxError, recv_errno = ECONNRESET,
                   send_outcome = (\<lambda>fd. SendFail ECONNRESET)\<rparr>"

text \<open>Connection 4 is accepted and has not sent a nickname yet.\<close>

definition anonymous_state :: server where
  "anonymous_state = handle_new_connection (env_accept 4) server0"

text \<open>Connection 4 has registered as \<open>alice\<close>.\<close>

definition alice :: client where
  "alice = \<lparr>socket = 4, nickname = ''alice''\<rparr>"

definition alice_state :: server where
  "alice_state = register_client (env_data (''alice'' @ [LF])) anonymous_state 4 ''alice''"

text \<open>Connection 5 has then been accepted and has registered as \<open>bob\<close>.\<close>

definition bob :: client where
  "bob = \<lparr>socket = 5, nickname = ''bob''\<rparr>"

definition bob_state :: server where
  "bob_state = register_client (env_data (''bob'' @ [LF]))
                 (handle_new_connection (env_accept 5) alice_state) 5 ''bob''"

text \<open>Six turns of the loop: connection 4 arrives and registers as \<open>alice\<close>, connections
  5 and 6 arrive, 6 registers as \<open>carol\<close> and then closes, while 5 has sent nothing.\<close>

definition starving_turns :: "(select_result \<times> (int \<Rightarrow> env)) list" where
  "starving_turns =
     [(SelectReady {3}, \<lambda>fd. env_accept 4),
      (SelectReady {4}, \<lambda>fd. env_data (''alice'' @ [LF])),
      (SelectReady {3}, \<lambda>fd. env_accept 5),
      (SelectReady {3}, \<lambda>fd. env_accept 6),
      (SelectReady {6}, \<lambda>fd. env_data (''carol'' @ [LF])),
      (SelectReady {6}, \<lambda>fd. env_data [])]"

section \<open>Properties of the operations\<close>

subsection \<open>What each operation changes\<close>

lemma emit_fields [simp]:
  "clients (emit evs s) = clients s"
  "server_socket (emit evs s) = server_socket s"
  "master_set (emit evs s) = master_set s"
  "max_fd (emit evs s) = max_fd s"
  "trace (emit evs s) = trace s @ evs"
  by (simp_all add: emit_def)

lemma broadcast_fields [simp]:
  "clients (broadcast ev s fd m) = clients s"
  "server_socket (broadcast ev s fd m) = server_socket s"
  "master_set (broadcast ev s fd m) = master_set s"
  "max_fd (broadcast ev s fd m) = max_fd s"
  by (simp_all add: broadcast_def)

lemma send_welcome_fields [simp]:
  "clients (send_welcome ev s fd) = clients s"
  "server_socket (send_welcome ev s fd) = server_socket s"
  "master_set (send_welcome ev s fd) = master_set s"
  "max_fd (send_welcome ev s fd) = max_fd s"
  by (simp_all add: send_welcome_def)

lemma nickname_exists_iff: "nickname_exists s nick \<longleftrightarrow> nick \<in> nickname ` set (clients s)"
  by (auto simp: nickname_exists_def list_ex_iff)

lemma find_client_None_iff: "find_client s sock = None \<longleftrightarrow> sock \<notin> socket ` set (clients s)"
  by (auto simp: find_client_def find_None_iff)

lemma clients_register_client:
  "clients (register_client ev s sock nick) =
     (if nickname_exists s nick then clients s
      else clients s @ [\<lparr>socket = sock, nickname = nick\<rparr>])"
  by (simp add: register_client_def Let_def)

lemma clients_remove_client:
  "clients (remove_client ev s sock) = filter (\<lambda>c. socket c \<noteq> sock) (clients s)"
proof (cases "find_client s sock")
  case None
  then have "\<forall>c\<in>set (clients s). socket c \<noteq> sock"
    by (auto simp: find_client_None_iff)
  then have "filter (\<lambda>c. socket c \<noteq> sock) (clients s) = clients s"
    by (simp add: filter_id_conv)
  with None show ?thesis by (simp add: remove_client_def)
next
  case (Some cl)
  then show ?thesis by (simp add: remove_client_def Let_def)
qed

lemma clients_handle_new_connection [simp]:
  "clients (handle_new_connection ev s) = clients s"
  by (simp add: handle_new_connection_def Let_def split: send_result.splits)

lemma clients_setup_server: "setup_server se = Inr s \<Longrightarrow> clients s = []"
  by (auto simp: setup_server_def split: if_splits)

lemma clients_process_message:
  "clients (process_message ev s sock m) = clients s
   \<or> (m \<noteq> [] \<and> clients (process_message ev s sock m) = clients (register_client ev s sock m))"
  by (simp add: process_message_def split: option.splits)

text \<open>The handler removes the connection's entries, leaves the registry alone, or
  registers a non-empty name.\<close>

lemma handle_client_data_cases:
  assumes "handle_client_data ev s sock = Inr s'"
  shows "clients s' = filter (\<lambda>c. socket c \<noteq> sock) (clients s)
       \<or> clients s' = clients s
       \<or> (\<exists>nick. nick \<noteq> [] \<and> clients s' = clients (register_client ev s sock nick))"
proof -
  from assms consider
      (gone) e where "s' = remove_client ev (emit [e] s) sock"
    | (line) m where "s' = process_message ev s sock m"
    by (auto simp: handle_client_data_def Let_def split: prod.splits if_splits option.splits)
  then show ?thesis
  proof cases
    case gone
    then show ?thesis by (simp add: clients_remove_client)
  next
    case (line m)
    with clients_process_message[of ev s sock m] show ?thesis by auto
  qed
qed

subsection \<open>Unique nicknames\<close>

lemma unique_register: "unique_nicknames s \<Longrightarrow> unique_nicknames (register_client ev s sock nick)"
  by (auto simp: unique_nicknames_def clients_register_client nickname_exists_iff)

lemma unique_remove: "unique_nicknames s \<Longrightarrow> unique_nicknames (remove_client ev s sock)"
  by (simp add: unique_nicknames_def clients_remove_client distinct_map_filter)

lemma unique_dispatch:
  assumes "unique_nicknames s" "dispatch ev s fd = Inr s'"
  shows "unique_nicknames s'"
proof (cases "fd = server_socket s")
  case True
  with assms show ?thesis by (auto simp: dispatch_def unique_nicknames_def)
next
  case False
  with assms have "handle_client_data ev s fd = Inr s'" by (simp add: dispatch_def)
  from handle_client_data_cases[OF this] show ?thesis
  proof (elim disjE exE conjE)
    assume "clients s' = filter (\<lambda>c. socket c \<noteq> fd) (clients s)"
    with assms(1) show ?thesis by (simp add: unique_nicknames_def distinct_map_filter)
  next
    assume "clients s' = clients s"
    with assms(1) show ?thesis by (simp add: unique_nicknames_def)
  next
    fix nick assume "clients s' = clients (register_client ev s fd nick)"
    with unique_register[OF assms(1), of ev fd nick] show ?thesis
      by (simp add: unique_nicknames_def)
  qed
qed

lemma reachable_ops_unique: "reachable_ops s \<Longrightarrow> unique_nicknames s"
proof (induction rule: reachable_ops.induct)
  case (ops_start se s)
  then show ?case by (simp add: unique_nicknames_def clients_setup_server)
next
  case (ops_register s ev sock nick)
  then show ?case by (simp add: unique_register)
next
  case (ops_broadcast s ev sender_fd message)
  then show ?case by (simp add: unique_nicknames_def)
next
  case (ops_remove s ev sock)
  then show ?case by (simp add: unique_remove)
next
  case (ops_step s ev fd s')
  then show ?case by (simp add: unique_dispatch)
qed

subsection \<open>Non-empty nicknames\<close>

lemma named_register:
  "named_clients s \<Longrightarrow> nick \<noteq> [] \<Longrightarrow> named_clients (register_client ev s sock nick)"
  by (simp add: named_clients_def clients_register_client)

lemma named_dispatch:
  assumes "named_clients s" "dispatch ev s fd = Inr s'"
  shows "named_clients s'"
proof (cases "fd = server_socket s")
  case True
  with assms show ?thesis by (auto simp: dispatch_def named_clients_def)
next
  case False
  with assms have "handle_client_data ev s fd = Inr s'" by (simp add: dispatch_def)
  from handle_client_data_cases[OF this] show ?thesis
  proof (elim disjE exE conjE)
    assume "clients s' = filter (\<lambda>c. socket c \<noteq> fd) (clients s)"
    with assms(1) show ?thesis by (simp add: named_clients_def list_all_iff)
  next
    assume "clients s' = clients s"
    with assms(1) show ?thesis by (simp add: named_clients_def)
  next
    fix nick assume "nick \<noteq> []" "clients s' = clients (register_client ev s fd nick)"
    with named_register[OF assms(1), of nick ev fd] show ?thesis
      by (simp add: named_clients_def)
  qed
qed

lemma reachable_named: "reachable s \<Longrightarrow> named_clients s"
proof (induction rule: reachable.induct)
  case (start se s)
  then show ?case by (simp add: named_clients_def clients_setup_server)
next
  case (step s ev fd s')
  then show ?case by (simp add: named_dispatch)
qed

subsection \<open>The loop stays within the reachable states\<close>

lemma reachable_imp_ops: "reachable s \<Longrightarrow> reachable_ops s"
  by (induction rule: reachable.induct) (auto intro: reachable_ops.intros)

lemma run_fds_reachable:
  "reachable s \<Longrightarrow> run_fds evs read_fds fds s = Inr s' \<Longrightarrow> reachable s'"
proof (induction fds arbitrary: s)
  case Nil
  then show ?case by simp
next
  case (Cons fd fds)
  show ?case
  proof (cases "fd \<in> read_fds")
    case True
    with Cons.prems(2) obtain s1 where s1: "dispatch (evs fd) s fd = Inr s1"
      "run_fds evs read_fds fds s1 = Inr s'"
      by (auto split: sum.splits)
    from Cons.prems(1) s1(1) have "reachable s1" by (rule reachable.step)
    then show ?thesis using s1(2) by (rule Cons.IH)
  next
    case False
    with Cons.prems(2) have "run_fds evs read_fds fds s = Inr s'" by simp
    with Cons.prems(1) show ?thesis by (rule Cons.IH)
  qed
qed

subsection \<open>Traces of a broadcast\<close>

lemma sends_append: "sends (xs @ ys) = sends xs @ sends ys"
  by (induction xs rule: sends.induct) simp_all

lemma closes_append: "closes (xs @ ys) = closes xs @ closes ys"
  by (induction xs rule: closes.induct) simp_all

lemma sends_failure_log [simp]: "sends (send_failure_log what r) = []"
  by (simp add: send_failure_log_def split: send_result.splits)

lemma closes_failure_log [simp]: "closes (send_failure_log what r) = []"
  by (simp add: send_failure_log_def split: send_result.splits)

lemma sends_broadcast_loop:
  "sends (broadcast_loop ev cs text) = map (\<lambda>c. (socket c, text)) cs"
  by (induction cs) (simp_all add: sends_append)

lemma closes_broadcast_loop: "closes (broadcast_loop ev cs text) = []"
  by (induction cs) (simp_all add: closes_append)

subsection \<open>Removing a registered client\<close>

text \<open>For a connection that has a registry entry, \<open>remove_client\<close> shuts the socket down,
  closes it, takes it out of \<open>master_set\<close> and out of \<open>clients\<close>; the rescan yields a bound
  that is at least the listening socket and every socket in \<open>clients\<close>.\<close>

lemma rescan_max_fd_ge: "m \<le> rescan_max_fd m cs"
proof (induction cs arbitrary: m)
  case Nil
  then show ?case by (simp add: rescan_max_fd_def)
next
  case (Cons c cs)
  have "rescan_max_fd m (c # cs) = rescan_max_fd (if socket c > m then socket c else m) cs"
    by (simp add: rescan_max_fd_def)
  moreover have "(if socket c > m then socket c else m) \<le> rescan_max_fd (if socket c > m then socket c else m) cs"
    by (rule Cons.IH)
  ultimately show ?case by (simp split: if_splits)
qed

lemma rescan_max_fd_bounds: "c \<in> set cs \<Longrightarrow> socket c \<le> rescan_max_fd m cs"
proof (induction cs arbitrary: m)
  case Nil
  then show ?case by simp
next
  case (Cons a cs)
  let ?m = "if socket a > m then socket a else m"
  have r: "rescan_max_fd m (a # cs) = rescan_max_fd ?m cs"
    by (simp add: rescan_max_fd_def)
  show ?case
  proof (cases "c = a")
    case True
    have "socket a \<le> ?m" by simp
    also have "?m \<le> rescan_max_fd ?m cs" by (rule rescan_max_fd_ge)
    finally show ?thesis using True r by simp
  next
    case False
    with Cons.prems have "c \<in> set cs" by simp
    then have "socket c \<le> rescan_max_fd ?m cs" by (rule Cons.IH)
    with r show ?thesis by simp
  qed
qed

lemma remove_client_registered:
  assumes "find_client s sock = Some cl"
  shows "sock \<notin> master_set (remove_client ev s sock)"
    and "find_client (remove_client ev s sock) sock = None"
    and "\<exists>evs. trace (remove_client ev s sock) = trace s @ evs \<and> closes evs = [sock, sock]"
proof -
  show "sock \<notin> master_set (remove_client ev s sock)"
    using assms by (simp add: remove_client_def Let_def)
  show "find_client (remove_client ev s sock) sock = None"
    by (auto simp: find_client_None_iff clients_remove_client)
  let ?evs = "Stdout (emoji_cross @ '' '' @ display_name cl @ '' disconnected'' @ [LF])
              # broadcast_loop ev (filter (\<lambda>c. socket c \<noteq> sock) (clients s)) (leave_msg cl)
              @ [Shutdown sock, Close sock]"
  have "trace (remove_client ev s sock) = trace s @ ?evs"
    using assms by (simp add: remove_client_def Let_def broadcast_def)
  moreover have "closes ?evs = [sock, sock]"
    by (simp add: closes_append closes_broadcast_loop)
  ultimately show "\<exists>evs. trace (remove_client ev s sock) = trace s @ evs \<and> closes evs = [sock, sock]"
    by blast
qed

subsection \<open>Decimal digits\<close>

text \<open>\<open>fmt_nat\<close> writes a number as its decimal digits, without a leading zero.\<close>

lemma less_ten_cases:
  "d < 10 \<Longrightarrow> d = 0 \<or> d = 1 \<or> d = 2 \<or> d = 3 \<or> d = 4 \<or> d = 5 \<or> d = 6 \<or> d = 7 \<or> d = 8 \<or> d = (9::nat)"
  by arith

lemma digit_value_digit_char: "d < 10 \<Longrightarrow> digit_value (digit_char d) = d"
  by (drule less_ten_cases) (auto simp: digit_value_def digit_char_def)

lemma digit_char_in_digits: "d < 10 \<Longrightarrow> digit_char d \<in> set ''0123456789''"
  by (drule less_ten_cases) (auto simp: digit_char_def)

lemma digit_char_zero: "d < 10 \<Longrightarrow> d \<noteq> 0 \<Longrightarrow> digit_char d \<noteq> CHR ''0''"
  by (drule less_ten_cases) (auto simp: digit_char_def)

lemma decimal_value_snoc: "decimal_value (ds @ [c]) = 10 * decimal_value ds + digit_value c"
  by (simp add: decimal_value_def)

lemma fmt_nat_nonempty: "fmt_nat n \<noteq> []"
  by (subst fmt_nat.simps) simp

lemma decimal_value_fmt_nat: "decimal_value (fmt_nat n) = n"
proof (induction n rule: fmt_nat.induct)
  case (1 n)
  show ?case
  proof (cases "n < 10")
    case True
    then have "fmt_nat n = [digit_char n]" by (subst fmt_nat.simps) simp
    with True show ?thesis by (simp add: decimal_value_def digit_value_digit_char)
  next
    case False
    then have "fmt_nat n = fmt_nat (n div 10) @ [digit_char (n mod 10)]"
      by (subst fmt_nat.simps) simp
    with False "1.IH" show ?thesis
      by (simp add: decimal_value_snoc digit_value_digit_char)
  qed
qed

lemma fmt_nat_digits: "set (fmt_nat n) \<subseteq> set ''0123456789''"
proof (induction n rule: fmt_nat.induct)
  case (1 n)
  show ?case
  proof (cases "n < 10")
    case True
    then have "fmt_nat n = [digit_char n]" by (subst fmt_nat.simps) simp
    with True digit_char_in_digits[of n] show ?thesis by simp
  next
    case False
    then have "fmt_nat n = fmt_nat (n div 10) @ [digit_char (n mod 10)]"
      by (subst fmt_nat.simps) simp
    with False "1.IH" digit_char_in_digits[of "n mod 10"] show ?thesis by simp
  qed
qed

lemma fmt_nat_no_leading_zero: "n \<noteq> 0 \<Longrightarrow> hd (fmt_nat n) \<noteq> CHR ''0''"
proof (induction n rule: fmt_nat.induct)
  case (1 n)
  show ?case
  proof (cases "n < 10")
    case True
    then have "fmt_nat n = [digit_char n]" by (subst fmt_nat.simps) simp
    with True "1.prems" digit_char_zero[of n] show ?thesis by simp
  next
    case False
    then have e: "fmt_nat n = fmt_nat (n div 10) @ [digit_char (n mod 10)]"
      by (subst fmt_nat.simps) simp
    from False have "n div 10 \<noteq> 0" by simp
    with False "1.IH" have "hd (fmt_nat (n div 10)) \<noteq> CHR ''0''" by simp
    with e fmt_nat_nonempty[of "n div 10"] show ?thesis by simp
  qed
qed

subsection \<open>The fold of the welcome message\<close>

lemma foldl_join_step:
  "acc \<noteq> [] \<Longrightarrow> [] \<notin> set ns \<Longrightarrow> foldl join_step acc ns = comma_join (acc # ns)"
proof (induction ns arbitrary: acc)
  case Nil
  then show ?case by simp
next
  case (Cons n ns)
  have "foldl join_step acc (n # ns) = foldl join_step (acc @ '', '' @ n) ns"
    using Cons.prems by (simp add: join_step_def)
  also have "\<dots> = comma_join ((acc @ '', '' @ n) # ns)"
    using Cons.prems by (intro Cons.IH) auto
  also have "\<dots> = comma_join (acc # n # ns)"
    by (cases ns) simp_all
  finally show ?case .
qed

lemma foldl_join_step_Nil: "[] \<notin> set ns \<Longrightarrow> foldl join_step [] ns = comma_join ns"
proof (cases ns)
  case Nil
  then show ?thesis by simp
next
  case (Cons n ns')
  assume "[] \<notin> set ns"
  with Cons have "n \<noteq> []" "[] \<notin> set ns'" by auto
  then have "foldl join_step n ns' = comma_join (n # ns')" by (rule foldl_join_step)
  with Cons show ?thesis by (simp add: join_step_def)
qed

lemma welcome_message_eq:
  "welcome_message cs sock =
     (let others = filter (\<lambda>c. socket c \<noteq> sock \<and> nickname c \<noteq> []) cs in
      if others = [] then welcome_alone
      else welcome_online (length others) (comma_join (map nickname others)))"
proof -
  let ?others = "filter (\<lambda>c. socket c \<noteq> sock \<and> nickname c \<noteq> []) cs"
  have "[] \<notin> set (map nickname ?others)" by auto
  then have "foldl join_step [] (map nickname ?others) = comma_join (map nickname ?others)"
    by (rule foldl_join_step_Nil)
  then show ?thesis by (simp add: welcome_message_def Let_def)
qed

lemma alone_not_zero_online: "welcome_alone \<noteq> welcome_online 0 users"
  by (simp add: welcome_alone_def welcome_online_def emoji_party_def fmt_nat.simps digit_char_def)

subsection \<open>Reading and cutting a line\<close>

lemma find_first_of_takeWhile:
  "find_first_of m chars =
     (if \<exists>c\<in>set m. c \<in> set chars then Some (length (takeWhile (\<lambda>c. c \<notin> set chars) m)) else None)"
  by (induction m) auto

lemma trim_message_eq: "trim_message m = Some (takeWhile (\<lambda>c. \<not> is_terminator c) m)"
proof -
  have t: "(\<lambda>c. c \<notin> set crlf) = (\<lambda>c. \<not> is_terminator c)"
    by (auto simp: crlf_def is_terminator_def)
  show ?thesis
  proof (cases "\<exists>c\<in>set m. c \<in> set crlf")
    case True
    then have "trim_message m = Some (take (length (takeWhile (\<lambda>c. c \<notin> set crlf) m)) m)"
      by (simp add: trim_message_def find_first_of_takeWhile substr_def)
    also have "take (length (takeWhile (\<lambda>c. c \<notin> set crlf) m)) m = takeWhile (\<lambda>c. c \<notin> set crlf) m"
      by (rule takeWhile_eq_take[symmetric])
    finally show ?thesis by (simp add: t)
  next
    case False
    then have tw: "takeWhile (\<lambda>c. c \<notin> set crlf) m = m" by (simp add: takeWhile_eq_all_conv)
    from False have tm: "trim_message m = Some m"
      by (simp add: trim_message_def find_first_of_takeWhile)
    show ?thesis unfolding tm t[symmetric] tw ..
  qed
qed

lemma take_length_update: "take (length xs) ((xs @ ys)[length xs := y]) = xs"
  by (simp add: take_update_cancel)

lemma recv_bytes_le: "fst (recv r buf n) \<le> int n"
  by (cases r) simp_all

text \<open>A read that returns bytes hands the cut line to \<open>process_message\<close>.\<close>

lemma handle_client_data_data:
  assumes "recv_input ev = RxData d" "d \<noteq> []"
  shows "handle_client_data ev s sock =
           Inr (process_message ev s sock
                  (takeWhile (\<lambda>c. \<not> is_terminator c) (take (BUFFER_SIZE - 1) d)))"
proof -
  let ?n = "BUFFER_SIZE - 1"
  let ?k = "length (take ?n d)"
  let ?buf0 = "replicate BUFFER_SIZE (CHR 0x00)"
  let ?buf1 = "take ?n d @ drop ?k ?buf0"
  have k: "0 < ?k" "?k < BUFFER_SIZE" using assms(2) by (auto simp: BUFFER_SIZE_def)
  have r: "recv (recv_input ev) ?buf0 (length ?buf0 - 1) = (int ?k, ?buf1)"
    by (simp add: assms(1))
  have len: "?k < length ?buf1" using k by (simp add: BUFFER_SIZE_def)
  have tk: "take ?k (?buf1[?k := CHR 0x00]) = take ?n d"
    by (rule take_length_update)
  have "handle_client_data ev s sock =
          (case trim_message (take ?k (?buf1[?k := CHR 0x00])) of
             None \<Rightarrow> Inl OutOfRange
           | Some message \<Rightarrow> Inr (process_message ev s sock message))"
    unfolding handle_client_data_def Let_def r prod.case
    using k len by (simp del: length_take take_all_iff length_append length_drop)
  then show ?thesis
    unfolding tk trim_message_eq by simp
qed

lemma handle_client_data_eof:
  "recv_input ev = RxData [] \<Longrightarrow>
   handle_client_data ev s sock =
     Inr (remove_client ev
            (emit [Stdout (''Client '' @ fmt_int sock @ '' closed connection'' @ [LF])] s) sock)"
  by (simp add: handle_client_data_def Let_def)

lemma handle_client_data_error:
  "recv_input ev = RxError \<Longrightarrow>
   handle_client_data ev s sock =
     Inr (remove_client ev (emit [recv_failure_log (recv_errno ev) sock] s) sock)"
  by (simp add: handle_client_data_def Let_def)

text \<open>The handler always returns a state: neither the buffer write nor \<open>substr\<close> fails.\<close>

lemma handle_client_data_total: "\<exists>s'. handle_client_data ev s sock = Inr s'"
proof (cases "recv_input ev")
  case RxError
  then show ?thesis by (simp add: handle_client_data_error)
next
  case (RxData d)
  show ?thesis
  proof (cases "d = []")
    case True
    with RxData show ?thesis by (simp add: handle_client_data_eof)
  next
    case False
    with RxData show ?thesis by (simp add: handle_client_data_data)
  qed
qed

subsection \<open>The concrete runs\<close>

lemma setup_ok_server0: "setup_server setup_ok = Inr server0"
  by (simp add: setup_server_def setup_ok_def server0_def)

lemma env_data_fields:
  "recv_input (env_data d) = RxData d" "send_outcome (env_data d) fd = SendOk"
  by (simp_all add: env_data_def)

lemma handle_client_data_env_data:
  "handle_client_data (env_data d) s sock =
     (if d = []
      then Inr (remove_client (env_data d)
            (emit [Stdout (''Client '' @ fmt_int sock @ '' closed connection'' @ [LF])] s) sock)
      else Inr (process_message (env_data d) s sock
                  (takeWhile (\<lambda>c. \<not> is_terminator c) (take (BUFFER_SIZE - 1) d))))"
proof (cases "d = []")
  case True
  then show ?thesis by (simp add: handle_client_data_eof env_data_def)
next
  case False
  have "recv_input (env_data d) = RxData d" by (simp add: env_data_def)
  from handle_client_data_data[OF this False] False show ?thesis by simp
qed

lemma upto_lists:
  "[0..3] = [0, 1, 2, 3::int]" "[0..4] = [0, 1, 2, 3, 4::int]"
  "[0..5] = [0, 1, 2, 3, 4, 5::int]" "[0..6] = [0, 1, 2, 3, 4, 5, 6::int]"
  by (simp_all add: upto_rec1)

lemma anon_fields:
  "clients anonymous_state = []" "master_set anonymous_state = {3, 4}"
  "max_fd anonymous_state = 4" "server_socket anonymous_state = 3"
  by (auto simp: anonymous_state_def handle_new_connection_def env_accept_def server0_def Let_def)

lemma reachable_anonymous_state: "reachable anonymous_state"
proof -
  have "reachable server0" using setup_ok_server0 by (rule reachable.start)
  moreover have "dispatch (env_accept 4) server0 3 = Inr anonymous_state"
    by (simp add: dispatch_def server0_def anonymous_state_def)
  ultimately show ?thesis by (rule reachable.step)
qed

lemma reachable_alice_state: "reachable alice_state"
proof -
  have "dispatch (env_data (''alice'' @ [LF])) anonymous_state 4 = Inr alice_state"
    by (simp add: dispatch_def anon_fields handle_client_data_env_data process_message_def
          find_client_def alice_state_def is_terminator_def CR_def LF_def BUFFER_SIZE_def)
  with reachable_anonymous_state show ?thesis by (rule reachable.step)
qed

lemma alice_fields:
  "clients alice_state = [alice]" "master_set alice_state = {3, 4}"
  "max_fd alice_state = 4" "server_socket alice_state = 3"
  by (simp_all add: alice_state_def alice_def register_client_def Let_def nickname_exists_def
        anon_fields)

lemma bob_fields: "clients bob_state = [alice, bob]"
  by (simp add: bob_state_def bob_def register_client_def Let_def nickname_exists_def
        alice_fields alice_def)

section \<open>The claims\<close>

text \<open>
  Claim C1: every connection on which Disconnect is invoked is shut down, closed and
  removed from the watched-set, also when it has no registry entry yet.

  The code does this only for a connection that \<open>find_client\<close> finds.  Connection 4 is
  accepted and closes before sending a nickname: the turn that reads its end of stream
  only prints a line, \<open>remove_client\<close> leaves the state as it is, descriptor 4 stays in
  \<open>master_set\<close> and is never shut down or closed.
\<close>

theorem anonymous_disconnect_leaks:
  "run_iteration (SelectReady {3}) (\<lambda>fd. env_accept 4) server0 = Inr anonymous_state
   \<and> run_iteration (SelectReady {4}) (\<lambda>fd. env_data []) anonymous_state
       = Inr (emit [Stdout (''Client 4 closed connection'' @ [LF])] anonymous_state)
   \<and> remove_client (env_data []) anonymous_state 4 = anonymous_state
   \<and> 4 \<in> master_set anonymous_state
   \<and> closes (trace anonymous_state) = []"
proof -
  have a: "run_iteration (SelectReady {3}) (\<lambda>fd. env_accept 4) server0 = Inr anonymous_state"
    by (simp add: run_iteration_def server0_def upto_lists dispatch_def anonymous_state_def)
  have f: "find_client (emit evs anonymous_state) 4 = None" for evs
    by (simp add: find_client_def anon_fields)
  have b: "run_iteration (SelectReady {4}) (\<lambda>fd. env_data []) anonymous_state
       = Inr (emit [Stdout (''Client 4 closed connection'' @ [LF])] anonymous_state)"
    by (simp add: run_iteration_def anon_fields upto_lists dispatch_def handle_client_data_eof
          env_data_def remove_client_def f fmt_int_def fmt_nat.simps digit_char_def)
  have c: "remove_client (env_data []) anonymous_state 4 = anonymous_state"
    using f[of "[]"] by (simp add: remove_client_def emit_def)
  have d: "closes (trace anonymous_state) = []"
    by (simp add: anonymous_state_def handle_new_connection_def env_accept_def server0_def
          Let_def emit_def)
  from a b c d show ?thesis by (simp add: anon_fields)
qed

text \<open>
  Claim C2: in every state reached by any sequence of register, broadcast and
  disconnect operations (and of handler calls), no two registry entries hold the same
  nickname, and a registration under a nickname that an entry holds changes nothing but
  the trace, which gains the rejection reply.
\<close>

theorem nicknames_unique:
  assumes "reachable_ops s"
  shows "distinct (map nickname (clients s))
       \<and> (\<forall>ev sock c. c \<in> set (clients s) \<longrightarrow>
             register_client ev s sock (nickname c)
               = s\<lparr>trace := trace s @ [Send sock nickname_taken]\<rparr>)"
proof -
  from assms have "unique_nicknames s" by (rule reachable_ops_unique)
  moreover have "register_client ev s sock (nickname c)
                   = s\<lparr>trace := trace s @ [Send sock nickname_taken]\<rparr>"
    if "c \<in> set (clients s)" for ev sock c
    using that by (auto simp: register_client_def nickname_exists_iff emit_def)
  ultimately show ?thesis by (simp add: unique_nicknames_def)
qed

theorem nicknames_unique_witness:
  "reachable_ops alice_state
   \<and> distinct (map nickname (clients alice_state))
   \<and> register_client env_failing alice_state 5 ''alice''
       = alice_state\<lparr>trace := trace alice_state @ [Send 5 nickname_taken]\<rparr>"
proof -
  have r: "reachable_ops alice_state"
    using reachable_alice_state by (rule reachable_imp_ops)
  from nicknames_unique [OF r] r show ?thesis
    by (simp add: alice_fields alice_def)
qed

text \<open>
  Claim C3: when the descriptor that equals the upper bound of the watched-set is
  removed, the bound is recomputed from all remaining watched descriptors, so that the
  bound is at least every watched descriptor after every operation.

  The code recomputes it from the listening socket and \<open>clients\<close> alone.  After the six
  turns of \<open>starving_turns\<close> the bound is 4 while descriptor 5, accepted and still without
  a nickname, is watched; a later turn in which 5 is ready does not reach it.
\<close>

theorem stale_upper_bound:
  "\<exists>s. run starving_turns server0 = Inr s
      \<and> max_fd s = 4 \<and> master_set s = {3, 4, 5}
      \<and> clients s = [\<lparr>socket = 4, nickname = ''alice''\<rparr>]
      \<and> run_iteration (SelectReady {5}) (\<lambda>fd. env_data (''bob'' @ [LF])) s = Inr s"
  by (simp add: starving_turns_def server0_def run_iteration_def upto_lists dispatch_def
        handle_new_connection_def env_accept_def Let_def emit_def handle_client_data_env_data
        process_message_def find_client_def register_client_def nickname_exists_def
        send_welcome_def broadcast_def remove_client_def rescan_max_fd_def
        is_terminator_def CR_def LF_def BUFFER_SIZE_def send_failure_log_def env_data_fields)
    auto

text \<open>
  Claim C4: for every sender and text, whatever each \<open>send\<close> returns, \<open>broadcast\<close>
  issues one \<open>send\<close> of the unchanged text to each client whose socket is not the
  sender's, in registry order, and none to the sender; it shuts down and closes nothing,
  and leaves the registry, the watched-set and its bound as they were.  It has no error
  result: the only events besides the \<open>send\<close> calls are lines on \<open>stderr\<close>.
\<close>

theorem broadcast_delivery:
  "\<exists>evs. broadcast ev s sender_fd text = s\<lparr>trace := trace s @ evs\<rparr>
       \<and> sends evs = map (\<lambda>c. (socket c, text))
                        (filter (\<lambda>c. socket c \<noteq> sender_fd) (clients s))
       \<and> sender_fd \<notin> fst ` set (sends evs)
       \<and> closes evs = []
       \<and> clients (broadcast ev s sender_fd text) = clients s
       \<and> master_set (broadcast ev s sender_fd text) = master_set s
       \<and> max_fd (broadcast ev s sender_fd text) = max_fd s"
proof -
  let ?evs = "broadcast_loop ev (filter (\<lambda>c. socket c \<noteq> sender_fd) (clients s)) text"
  have "broadcast ev s sender_fd text = s\<lparr>trace := trace s @ ?evs\<rparr>"
    by (simp add: broadcast_def emit_def)
  moreover have "sends ?evs = map (\<lambda>c. (socket c, text))
                                (filter (\<lambda>c. socket c \<noteq> sender_fd) (clients s))"
    by (rule sends_broadcast_loop)
  moreover have "sender_fd \<notin> fst ` set (sends ?evs)"
    by (auto simp: sends_broadcast_loop)
  moreover have "closes ?evs = []"
    by (rule closes_broadcast_loop)
  ultimately show ?thesis
    by (intro exI[of _ ?evs]) simp
qed

theorem broadcast_delivery_witness:
  "\<exists>evs. broadcast env_failing alice_state 5 ''hello''
           = alice_state\<lparr>trace := trace alice_state @ evs\<rparr>
       \<and> sends evs = [(4, ''hello'')]
       \<and> closes evs = []
       \<and> clients (broadcast env_failing alice_state 5 ''hello'') = [alice]"
proof -
  from broadcast_delivery [of env_failing alice_state 5 "''hello''"]
  obtain evs where
    "broadcast env_failing alice_state 5 ''hello'' = alice_state\<lparr>trace := trace alice_state @ evs\<rparr>"
    "sends evs = map (\<lambda>c. (socket c, ''hello'')) (filter (\<lambda>c. socket c \<noteq> 5) (clients alice_state))"
    "closes evs = []"
    "clients (broadcast env_failing alice_state 5 ''hello'') = clients alice_state"
    by blast
  then show ?thesis
    by (intro exI[of _ evs]) (simp add: alice_fields alice_def)
qed

text \<open>
  Claim C5: a read that returns bytes dispatches the received chunk cut before its first
  \<open>\r\<close> or \<open>\n\<close> (the whole chunk when it holds neither); a line that is empty after the
  cut leaves the state, trace included, as it was, and the handler returns normally.
\<close>

theorem line_cut_at_terminator:
  assumes "recv_input ev = RxData d" and "d \<noteq> []"
  shows "handle_client_data ev s sock =
           Inr (process_message ev s sock
                  (takeWhile (\<lambda>c. c \<noteq> CR \<and> c \<noteq> LF) (take (BUFFER_SIZE - 1) d)))
       \<and> process_message ev s sock [] = s"
proof -
  have "(\<lambda>c. \<not> is_terminator c) = (\<lambda>c. c \<noteq> CR \<and> c \<noteq> LF)"
    by (auto simp: is_terminator_def)
  with handle_client_data_data[OF assms, of s sock] show ?thesis
    by (simp add: process_message_def)
qed

theorem line_cut_at_terminator_witness:
  "handle_client_data (env_data (''bob'' @ crlf @ ''xyz'')) alice_state 5
     = Inr (process_message (env_data (''bob'' @ crlf @ ''xyz'')) alice_state 5 ''bob'')
   \<and> handle_client_data (env_data crlf) alice_state 5 = Inr alice_state"
  using line_cut_at_terminator
          [of "env_data (''bob'' @ crlf @ ''xyz'')" "''bob'' @ crlf @ ''xyz''" alice_state 5]
        line_cut_at_terminator [of "env_data crlf" crlf alice_state 5]
  by (simp add: env_data_fields crlf_def CR_def LF_def BUFFER_SIZE_def)

text \<open>
  Claim C6: a successful registration sends the joining client one message, given here
  byte by byte.  When no other entry has a non-empty nickname it is the "alone" message,
  which differs from a message reporting 0 users.  Otherwise it reports the number of
  such entries, written as decimal digits that denote that number, and lists their
  nicknames in registry order, joined by a comma and a space.  The joining client is not
  counted, and connections without an entry are not in the registry at all.
\<close>

theorem welcome_counts:
  assumes "\<not> nickname_exists s nick"
  shows "(\<exists>rest. trace (register_client ev s sock nick) =
            trace s @ [Stdout ([CHR 0xF0, CHR 0x9F, CHR 0x91, CHR 0xA4] @ '' Registered: '' @ nick
                               @ [CHR 0x0A]),
                       Send sock
                         (if named_others s sock = []
                          then [CHR 0xF0, CHR 0x9F, CHR 0x8E, CHR 0x89]
                               @ '' Welcome! You are the only user here.'' @ [CHR 0x0D, CHR 0x0A]
                          else [CHR 0xF0, CHR 0x9F, CHR 0x8E, CHR 0x89] @ '' Welcome! ''
                               @ fmt_nat (length (named_others s sock)) @ '' users online.''
                               @ [CHR 0x0D, CHR 0x0A]
                               @ [CHR 0xF0, CHR 0x9F, CHR 0x91, CHR 0xA5] @ '' Users: ''
                               @ comma_join (map nickname (named_others s sock))
                               @ [CHR 0x0D, CHR 0x0A])]
                    @ rest
          \<and> sock \<notin> fst ` set (sends rest))
       \<and> decimal_value (fmt_nat (length (named_others s sock))) = length (named_others s sock)
       \<and> set (fmt_nat (length (named_others s sock))) \<subseteq> set ''0123456789''
       \<and> (named_others s sock \<noteq> [] \<longrightarrow> hd (fmt_nat (length (named_others s sock))) \<noteq> CHR ''0'')
       \<and> [CHR 0xF0, CHR 0x9F, CHR 0x8E, CHR 0x89] @ '' Welcome! You are the only user here.''
             @ [CHR 0x0D, CHR 0x0A]
           \<noteq> [CHR 0xF0, CHR 0x9F, CHR 0x8E, CHR 0x89] @ '' Welcome! 0 users online.''
             @ [CHR 0x0D, CHR 0x0A] @ [CHR 0xF0, CHR 0x9F, CHR 0x91, CHR 0xA5] @ '' Users: ''
             @ users @ [CHR 0x0D, CHR 0x0A]"
proof -
  let ?new = "\<lparr>socket = sock, nickname = nick\<rparr>"
  let ?rest = "send_failure_log ''send welcome failed: '' (send_outcome ev sock)
       @ broadcast_loop ev (filter (\<lambda>c. socket c \<noteq> sock) (clients s @ [?new])) (join_msg nick)"
  have f: "filter (\<lambda>c. socket c \<noteq> sock \<and> nickname c \<noteq> []) (clients s @ [?new])
             = named_others s sock"
    by (simp add: named_others_def)
  have "trace (register_client ev s sock nick) =
          trace s @ [Stdout (emoji_person @ '' Registered: '' @ nick @ [LF]),
                     Send sock (welcome_message (clients s @ [?new]) sock)] @ ?rest"
    using assms by (simp add: register_client_def Let_def send_welcome_def broadcast_def)
  moreover have "welcome_message (clients s @ [?new]) sock =
      (if named_others s sock = [] then welcome_alone
       else welcome_online (length (named_others s sock))
              (comma_join (map nickname (named_others s sock))))"
    unfolding welcome_message_eq Let_def f by simp
  moreover have "sock \<notin> fst ` set (sends ?rest)"
    by (auto simp: sends_append sends_broadcast_loop)
  ultimately have "trace (register_client ev s sock nick) =
            trace s @ [Stdout ([CHR 0xF0, CHR 0x9F, CHR 0x91, CHR 0xA4] @ '' Registered: '' @ nick
                               @ [CHR 0x0A]),
                       Send sock
                         (if named_others s sock = []
                          then [CHR 0xF0, CHR 0x9F, CHR 0x8E, CHR 0x89]
                               @ '' Welcome! You are the only user here.'' @ [CHR 0x0D, CHR 0x0A]
                          else [CHR 0xF0, CHR 0x9F, CHR 0x8E, CHR 0x89] @ '' Welcome! ''
                               @ fmt_nat (length (named_others s sock)) @ '' users online.''
                               @ [CHR 0x0D, CHR 0x0A]
                               @ [CHR 0xF0, CHR 0x9F, CHR 0x91, CHR 0xA5] @ '' Users: ''
                               @ comma_join (map nickname (named_others s sock))
                               @ [CHR 0x0D, CHR 0x0A])]
                    @ ?rest
          \<and> sock \<notin> fst ` set (sends ?rest)"
    by (simp add: welcome_alone_def welcome_online_def emoji_party_def emoji_people_def
          emoji_person_def crlf_def CR_def LF_def)
  then have 1: "\<exists>rest. trace (register_client ev s sock nick) =
            trace s @ [Stdout ([CHR 0xF0, CHR 0x9F, CHR 0x91, CHR 0xA4] @ '' Registered: '' @ nick
                               @ [CHR 0x0A]),
                       Send sock
                         (if named_others s sock = []
                          then [CHR 0xF0, CHR 0x9F, CHR 0x8E, CHR 0x89]
                               @ '' Welcome! You are the only user here.'' @ [CHR 0x0D, CHR 0x0A]
                          else [CHR 0xF0, CHR 0x9F, CHR 0x8E, CHR 0x89] @ '' Welcome! ''
                               @ fmt_nat (length (named_others s sock)) @ '' users online.''
                               @ [CHR 0x0D, CHR 0x0A]
                               @ [CHR 0xF0, CHR 0x9F, CHR 0x91, CHR 0xA5] @ '' Users: ''
                               @ comma_join (map nickname (named_others s sock))
                               @ [CHR 0x0D, CHR 0x0A])]
                    @ rest
          \<and> sock \<notin> fst ` set (sends rest)"
    by (rule exI[of _ ?rest])
  have 2: "decimal_value (fmt_nat (length (named_others s sock))) = length (named_others s sock)"
    by (rule decimal_value_fmt_nat)
  have 3: "set (fmt_nat (length (named_others s sock))) \<subseteq> set ''0123456789''"
    by (rule fmt_nat_digits)
  have 4: "named_others s sock \<noteq> [] \<longrightarrow> hd (fmt_nat (length (named_others s sock))) \<noteq> CHR ''0''"
    by (simp add: fmt_nat_no_leading_zero)
  have 5: "[CHR 0xF0, CHR 0x9F, CHR 0x8E, CHR 0x89] @ '' Welcome! You are the only user here.''
             @ [CHR 0x0D, CHR 0x0A]
           \<noteq> [CHR 0xF0, CHR 0x9F, CHR 0x8E, CHR 0x89] @ '' Welcome! 0 users online.''
             @ [CHR 0x0D, CHR 0x0A] @ [CHR 0xF0, CHR 0x9F, CHR 0x91, CHR 0xA5] @ '' Users: ''
             @ users @ [CHR 0x0D, CHR 0x0A]"
    by simp
  from 1 2 3 4 5 show ?thesis by (intro conjI)
qed

theorem welcome_counts_witness:
  "\<not> nickname_exists bob_state ''carol''
   \<and> (\<exists>rest. trace (register_client env_failing bob_state 6 ''carol'') =
          trace bob_state
            @ [Stdout ([CHR 0xF0, CHR 0x9F, CHR 0x91, CHR 0xA4] @ '' Registered: carol'' @ [CHR 0x0A]),
               Send 6 ([CHR 0xF0, CHR 0x9F, CHR 0x8E, CHR 0x89] @ '' Welcome! 2 users online.''
                       @ [CHR 0x0D, CHR 0x0A]
                       @ [CHR 0xF0, CHR 0x9F, CHR 0x91, CHR 0xA5] @ '' Users: alice, bob''
                       @ [CHR 0x0D, CHR 0x0A])]
            @ rest)
   \<and> \<not> nickname_exists server0 ''alice''
   \<and> (\<exists>rest. trace (register_client env_failing server0 4 ''alice'') =
          trace server0
            @ [Stdout ([CHR 0xF0, CHR 0x9F, CHR 0x91, CHR 0xA4] @ '' Registered: alice'' @ [CHR 0x0A]),
               Send 4 ([CHR 0xF0, CHR 0x9F, CHR 0x8E, CHR 0x89]
                       @ '' Welcome! You are the only user here.'' @ [CHR 0x0D, CHR 0x0A])]
            @ rest)"
proof -
  have n: "\<not> nickname_exists bob_state ''carol''"
    by (simp add: nickname_exists_def bob_fields alice_def bob_def)
  have o: "named_others bob_state 6 = [alice, bob]"
    by (simp add: named_others_def bob_fields alice_def bob_def)
  have n0: "\<not> nickname_exists server0 ''alice''"
    by (simp add: nickname_exists_def server0_def)
  have o0: "named_others server0 4 = []"
    by (simp add: named_others_def server0_def)
  have d: "fmt_nat (Suc (Suc 0)) = ''2''"
    by (simp add: fmt_nat.simps digit_char_def)
  from welcome_counts [OF n, where ev = env_failing and sock = 6]
  have a: "\<exists>rest. trace (register_client env_failing bob_state 6 ''carol'') =
          trace bob_state
            @ [Stdout ([CHR 0xF0, CHR 0x9F, CHR 0x91, CHR 0xA4] @ '' Registered: carol'' @ [CHR 0x0A]),
               Send 6 ([CHR 0xF0, CHR 0x9F, CHR 0x8E, CHR 0x89] @ '' Welcome! 2 users online.''
                       @ [CHR 0x0D, CHR 0x0A]
                       @ [CHR 0xF0, CHR 0x9F, CHR 0x91, CHR 0xA5] @ '' Users: alice, bob''
                       @ [CHR 0x0D, CHR 0x0A])]
            @ rest"
    unfolding o by (auto simp: alice_def bob_def d)
  from welcome_counts [OF n0, where ev = env_failing and sock = 4]
  have b: "\<exists>rest. trace (register_client env_failing server0 4 ''alice'') =
          trace server0
            @ [Stdout ([CHR 0xF0, CHR 0x9F, CHR 0x91, CHR 0xA4] @ '' Registered: alice'' @ [CHR 0x0A]),
               Send 4 ([CHR 0xF0, CHR 0x9F, CHR 0x8E, CHR 0x89]
                       @ '' Welcome! You are the only user here.'' @ [CHR 0x0D, CHR 0x0A])]
            @ rest"
    unfolding o0 by auto
  from n a n0 b show ?thesis by (intro conjI)
qed



text \<open>
  Claim C8: when the client that \<open>find_client\<close> finds for a connection is removed, no
  entry holds its nickname any more, and the next registration under that nickname, from
  any connection, appends its entry.
\<close>

theorem name_released:
  assumes "reachable_ops s" and "find_client s sock = Some cl"
  shows "\<not> nickname_exists (remove_client ev s sock) (nickname cl)
       \<and> clients (register_client ev' (remove_client ev s sock) sock' (nickname cl))
           = clients (remove_client ev s sock) @ [\<lparr>socket = sock', nickname = nickname cl\<rparr>]"
proof -
  from assms(1) have d: "distinct (map nickname (clients s))"
    using reachable_ops_unique by (simp add: unique_nicknames_def)
  from assms(2) have cl: "cl \<in> set (clients s)" "socket cl = sock"
    by (auto simp: find_client_def find_Some_iff)
  have "nickname cl \<noteq> nickname c" if "c \<in> set (clients s)" "socket c \<noteq> sock" for c
  proof
    assume "nickname cl = nickname c"
    with d that(1) cl(1) have "c = cl" by (simp add: distinct_map inj_on_def)
    with that(2) cl(2) show False by simp
  qed
  then have n: "\<not> nickname_exists (remove_client ev s sock) (nickname cl)"
    by (auto simp: nickname_exists_iff clients_remove_client)
  then show ?thesis by (simp add: clients_register_client)
qed

theorem name_released_witness:
  "reachable_ops alice_state \<and> find_client alice_state 4 = Some alice
   \<and> clients (register_client env_failing (remove_client env_failing alice_state 4) 5 ''alice'')
       = [\<lparr>socket = 5, nickname = ''alice''\<rparr>]"
proof -
  have r: "reachable_ops alice_state"
    using reachable_alice_state by (rule reachable_imp_ops)
  have f: "find_client alice_state 4 = Some alice"
    by (simp add: find_client_def alice_fields alice_def)
  from name_released [OF r f, of env_failing env_failing 5] r f show ?thesis
    by (simp add: clients_remove_client alice_fields alice_def)
qed

text \<open>
  Claim C9: in every state of the event loop every registry entry has a non-empty
  nickname, so the leave notice of a client that \<open>find_client\<close> finds carries its
  nickname, never the placeholder.
\<close>

theorem registry_nicknames_nonempty:
  assumes "reachable s"
  shows "(\<forall>c\<in>set (clients s). nickname c \<noteq> [])
       \<and> (\<forall>sock cl. find_client s sock = Some cl \<longrightarrow>
             display_name cl = nickname cl
           \<and> leave_msg cl = emoji_wave @ '' '' @ nickname cl @ '' left the chat'' @ crlf)"
proof -
  from assms have n: "\<forall>c\<in>set (clients s). nickname c \<noteq> []"
    using reachable_named by (simp add: named_clients_def list_all_iff)
  moreover have "display_name cl = nickname cl" if "find_client s sock = Some cl" for sock cl
  proof -
    from that have "cl \<in> set (clients s)" by (auto simp: find_client_def find_Some_iff)
    with n show ?thesis by (simp add: display_name_def)
  qed
  ultimately show ?thesis by (simp add: leave_msg_def)
qed

theorem registry_nicknames_nonempty_witness:
  "reachable alice_state \<and> find_client alice_state 4 = Some alice
   \<and> nickname alice \<noteq> [] \<and> display_name alice = ''alice''"
proof -
  have f: "find_client alice_state 4 = Some alice"
    by (simp add: find_client_def alice_fields alice_def)
  from registry_nicknames_nonempty [OF reachable_alice_state] f reachable_alice_state
  show ?thesis by (auto simp: alice_fields alice_def)
qed

text \<open>
  Claim C10: one \<open>recv\<close> returns at most 1023 bytes, the index of the terminating
  \<open>'\0'\<close> lies inside the buffer, and the handler never writes past it.  An input of
  more than 1023 bytes without a terminator is handled in pieces: the first read
  processes its first 1023 bytes as a message and leaves the rest queued, and the next
  read processes the first 1023 bytes of the rest as a message of its own.
\<close>

theorem read_bounded:
  "fst (recv r (replicate BUFFER_SIZE c0) (BUFFER_SIZE - 1)) \<le> 1023
   \<and> nat (fst (recv r (replicate BUFFER_SIZE c0) (BUFFER_SIZE - 1)))
       < length (snd (recv r (replicate BUFFER_SIZE c0) (BUFFER_SIZE - 1)))
   \<and> handle_client_data ev s sock \<noteq> Inl BufferOverrun
   \<and> (recv_input ev = RxData d \<and> 1023 < length d \<and> CR \<notin> set d \<and> LF \<notin> set d \<longrightarrow>
        handle_client_data ev s sock = Inr (process_message ev s sock (take 1023 d))
      \<and> unread (recv_input ev) (BUFFER_SIZE - 1) = drop 1023 d
      \<and> drop 1023 d \<noteq> []
      \<and> handle_client_data (ev\<lparr>recv_input := RxData (unread (recv_input ev) (BUFFER_SIZE - 1))\<rparr>)
            s' sock
          = Inr (process_message
                   (ev\<lparr>recv_input := RxData (unread (recv_input ev) (BUFFER_SIZE - 1))\<rparr>)
                   s' sock (take 1023 (drop 1023 d))))"
proof -
  have a: "fst (recv r (replicate BUFFER_SIZE c0) (BUFFER_SIZE - 1)) \<le> 1023"
    using recv_bytes_le[of r "replicate BUFFER_SIZE c0" "BUFFER_SIZE - 1"]
    by (simp add: BUFFER_SIZE_def)
  have b: "nat (fst (recv r (replicate BUFFER_SIZE c0) (BUFFER_SIZE - 1)))
       < length (snd (recv r (replicate BUFFER_SIZE c0) (BUFFER_SIZE - 1)))"
    by (cases r) (auto simp: BUFFER_SIZE_def)
  have c: "handle_client_data ev s sock = Inr (process_message ev s sock (take 1023 d))
      \<and> unread (recv_input ev) (BUFFER_SIZE - 1) = drop 1023 d
      \<and> drop 1023 d \<noteq> []
      \<and> handle_client_data (ev\<lparr>recv_input := RxData (unread (recv_input ev) (BUFFER_SIZE - 1))\<rparr>)
            s' sock
          = Inr (process_message
                   (ev\<lparr>recv_input := RxData (unread (recv_input ev) (BUFFER_SIZE - 1))\<rparr>)
                   s' sock (take 1023 (drop 1023 d)))"
    if h: "recv_input ev = RxData d" "1023 < length d" "CR \<notin> set d" "LF \<notin> set d"
  proof -
    let ?ev2 = "ev\<lparr>recv_input := RxData (unread (recv_input ev) (BUFFER_SIZE - 1))\<rparr>"
    have nt: "takeWhile (\<lambda>c. \<not> is_terminator c) xs = xs" if "set xs \<subseteq> set d" for xs
      using that h(3,4) by (auto simp: takeWhile_eq_all_conv is_terminator_def)
    have u: "unread (recv_input ev) (BUFFER_SIZE - 1) = drop 1023 d"
      by (simp add: h(1) BUFFER_SIZE_def)
    from h(2) have ne: "d \<noteq> []" "drop 1023 d \<noteq> []" by auto
    have r1: "handle_client_data ev s sock = Inr (process_message ev s sock (take 1023 d))"
      using handle_client_data_data[OF h(1) ne(1), of s sock] nt[of "take 1023 d"]
      by (simp add: BUFFER_SIZE_def set_take_subset)
    have "recv_input ?ev2 = RxData (drop 1023 d)" unfolding u by simp
    from handle_client_data_data[OF this ne(2), of s' sock]
    have r2: "handle_client_data ?ev2 s' sock
                = Inr (process_message ?ev2 s' sock (take 1023 (drop 1023 d)))"
      using nt[of "take 1023 (drop 1023 d)"] set_take_subset[of 1023 "drop 1023 d"]
        set_drop_subset[of 1023 d]
      by (simp add: BUFFER_SIZE_def)
    from r1 u ne(2) r2 show ?thesis by (intro conjI)
  qed
  have t: "handle_client_data ev s sock \<noteq> Inl BufferOverrun"
    using handle_client_data_total[of ev s sock] by auto
  from a b c t show ?thesis by blast
qed

theorem read_bounded_witness:
  "handle_client_data (env_data (replicate 2000 (CHR ''a''))) alice_state 4
     = Inr (process_message (env_data (replicate 2000 (CHR ''a''))) alice_state 4
              (replicate 1023 (CHR ''a'')))
   \<and> unread (RxData (replicate 2000 (CHR ''a''))) (BUFFER_SIZE - 1) = replicate 977 (CHR ''a'')
   \<and> handle_client_data (env_data (replicate 977 (CHR ''a''))) alice_state 4
     = Inr (process_message (env_data (replicate 977 (CHR ''a''))) alice_state 4
              (replicate 977 (CHR ''a'')))"
  using read_bounded [of "RxData (replicate 2000 (CHR ''a''))" "CHR ''a''"
      "env_data (replicate 2000 (CHR ''a''))" alice_state 4 "replicate 2000 (CHR ''a'')"
      alice_state]
  by (simp add: env_data_fields CR_def LF_def BUFFER_SIZE_def env_data_def)

end
